theory Spec2Isabelle
  imports Complex_Main "HOL-Library.Multiset"
begin

section \<open>Values shared by the scripts\<close>

text \<open>
  The exceptions the modelled functions can raise. \<open>ValueError\<close> comes from numpy
  (\<open>linspace\<close>, \<open>gradient\<close>, \<open>random.choice\<close>, \<open>max\<close> of an empty array),
  \<open>KeyError\<close> from \<open>set.remove\<close>, \<open>IndexError\<close> from indexing an array out of
  range, \<open>UnboundLocalError\<close> from reading a local that no branch assigned.
\<close>

datatype error = ValueError | KeyError | IndexError | UnboundLocalError

text \<open>
  A two-dimensional numpy array is a list of rows. \<open>shaped h w A\<close> says that \<open>A\<close> has
  \<open>h\<close> rows of \<open>w\<close> entries each. Finite floating-point values are modelled by real
  numbers (exact arithmetic); the special values of IEEE arithmetic are modelled
  separately where the source can produce them.
\<close>

definition shaped :: "nat \<Rightarrow> nat \<Rightarrow> 'a list list \<Rightarrow> bool" where
  "shaped h w A \<longleftrightarrow> length A = h \<and> (\<forall>row \<in> set A. length row = w)"

definition zip2d :: "'a list list \<Rightarrow> 'b list list \<Rightarrow> ('a \<times> 'b) list list" where
  "zip2d A B = map (\<lambda>(a, b). zip a b) (zip A B)"

text \<open>\<open>A[mask] = V[mask]\<close>: the entries of \<open>V\<close> where the mask holds, those of \<open>A\<close> elsewhere.\<close>

definition assign_where :: "bool list list \<Rightarrow> 'a list list \<Rightarrow> 'a list list \<Rightarrow> 'a list list" where
  "assign_where msk A V =
     map (\<lambda>(mrow, avrow). map (\<lambda>(m, a, v). if m then v else a) (zip mrow avrow))
       (zip msk (zip2d A V))"

section \<open>Escape-time fields (mandelbrotTSP1.py, julia\_set.py)\<close>

text \<open>
  \<open>np.linspace(start, stop, num)\<close>: \<open>num\<close> evenly spaced samples with both end points;
  a single sample is \<open>start\<close>, no sample is the empty array, a negative \<open>num\<close> raises.
\<close>

definition linspace :: "real \<Rightarrow> real \<Rightarrow> int \<Rightarrow> error + real list" where
  "linspace start stop num =
     (if num < 0 then Inl ValueError
      else if num = 1 then Inr [start]
      else Inr (map (\<lambda>k. start + real k * ((stop - start) / real_of_int (num - 1)))
                  [0..<nat num]))"

text \<open>\<open>np.meshgrid(x, y)\<close>: one row per entry of \<open>y\<close>, one column per entry of \<open>x\<close>.\<close>

definition meshgrid :: "real list \<Rightarrow> real list \<Rightarrow> real list list \<times> real list list" where
  "meshgrid x y = (map (\<lambda>_. x) y, map (\<lambda>v. map (\<lambda>_. v) x) y)"

text \<open>\<open>X + 1j * Y\<close>.\<close>

definition complex_plane :: "real list list \<Rightarrow> real list list \<Rightarrow> complex list list" where
  "complex_plane X Y = map (map (\<lambda>(a, b). Complex a b)) (zip2d X Y)"

text \<open>
  One pass of the loop body, for loop index \<open>i\<close>:
  \<^verbatim>\<open>mask = np.abs(Z) <= 2;  Z[mask] = Z[mask]**2 + C[mask];  M[mask] = i\<close>.
  The mask is taken from \<open>Z\<close> before the update and used for both assignments.
\<close>

definition escape_step ::
  "complex list list \<Rightarrow> complex list list \<times> real list list \<Rightarrow> nat
     \<Rightarrow> complex list list \<times> real list list" where
  "escape_step C ZM i =
     (let Z = fst ZM; M = snd ZM;
          msk = map (map (\<lambda>z. cmod z \<le> 2)) Z;
          Z' = assign_where msk Z (map (map (\<lambda>(z, c). z\<^sup>2 + c)) (zip2d Z C));
          M' = assign_where msk M (map (map (\<lambda>_. real i)) M)
      in (Z', M'))"

text \<open>
  \<open>calculate_mandelbrot\<close>: the orbit starts at zero everywhere and the cell's coordinate
  is the added constant; \<open>for i in range(max_iter)\<close> runs the body for
  \<open>i = 0, ..., max_iter - 1\<close> (not at all when \<open>max_iter \<le> 0\<close>). Returns \<open>(M, X, Y)\<close>.
\<close>

definition calculate_mandelbrot ::
  "int \<Rightarrow> int \<Rightarrow> real \<Rightarrow> real \<Rightarrow> real \<Rightarrow> real \<Rightarrow> int
     \<Rightarrow> error + (real list list \<times> real list list \<times> real list list)" where
  "calculate_mandelbrot width height x_min x_max y_min y_max max_iter =
     (case linspace x_min x_max width of Inl e \<Rightarrow> Inl e | Inr x \<Rightarrow>
      (case linspace y_min y_max height of Inl e \<Rightarrow> Inl e | Inr y \<Rightarrow>
        (let X = fst (meshgrid x y); Y = snd (meshgrid x y);
             C = complex_plane X Y;
             Z = map (map (\<lambda>_. 0)) C;
             M = map (map (\<lambda>_. 0)) C;
             ZM = foldl (escape_step C) (Z, M) [0..<nat max_iter]
         in Inr (snd ZM, X, Y))))"



text \<open>What the loop body does to one cell, and the loop on one cell.\<close>

definition cell_step :: "complex \<Rightarrow> complex \<times> real \<Rightarrow> nat \<Rightarrow> complex \<times> real" where
  "cell_step c zm i = (if cmod (fst zm) \<le> 2 then ((fst zm)\<^sup>2 + c, real i) else zm)"

definition cell_run :: "complex \<Rightarrow> complex \<Rightarrow> nat \<Rightarrow> complex \<times> real" where
  "cell_run c z n = foldl (cell_step c) (z, 0) [0..<n]"


section \<open>Tour construction and improvement (mandelbrotTSP1.py)\<close>

text \<open>
  A point is a pair of coordinates (a row of the \<open>N \<times> 2\<close> array \<open>points\<close>); a tour is a
  list of indices into \<open>points\<close>. \<open>euclid p q\<close> is \<open>np.linalg.norm(p - q)\<close>, which is also the
  entry \<open>cdist\<close> computes.
\<close>

type_synonym point = "real \<times> real"

definition euclid :: "point \<Rightarrow> point \<Rightarrow> real" where
  "euclid p q = sqrt ((fst p - fst q)\<^sup>2 + (snd p - snd q)\<^sup>2)"

text \<open>\<open>np.argmin\<close>: the first index that holds the minimum; an empty array raises.\<close>

fun first_index :: "('a \<Rightarrow> bool) \<Rightarrow> 'a list \<Rightarrow> nat" where
  "first_index P [] = 0"
| "first_index P (x # xs) = (if P x then 0 else Suc (first_index P xs))"

definition argmin :: "real list \<Rightarrow> error + nat" where
  "argmin ds = (if ds = [] then Inl ValueError else Inr (first_index (\<lambda>d. d = Min (set ds)) ds))"

lemma first_index_less: "\<exists>x \<in> set xs. P x \<Longrightarrow> first_index P xs < length xs"
  by (induction xs) auto

lemma argmin_less: "argmin ds = Inr k \<Longrightarrow> k < length ds"
proof -
  assume a: "argmin ds = Inr k"
  then have ne: "ds \<noteq> []"
    by (auto simp: argmin_def)
  then have "Min (set ds) \<in> set ds"
    by (intro Min_in) simp_all
  then have "first_index (\<lambda>d. d = Min (set ds)) ds < length ds"
    by (intro first_index_less) auto
  then show ?thesis
    using a ne by (simp add: argmin_def)
qed

text \<open>
  The loop of \<open>nearest_neighbor_tsp\<close>. The set \<open>unvisited\<close> is kept as an increasing list:
  CPython iterates a set of small non-negative integers built from \<open>range(n)\<close> in
  increasing order, also after removals, so \<open>list(unvisited)\<close> is that list.
  \<open>distances\<close> holds the distance from \<open>points[current]\<close> to each unvisited point, in that
  order. The indices all come from \<open>range(n)\<close>, so no lookup is out of range.
\<close>

function nn_loop :: "point list \<Rightarrow> nat \<Rightarrow> nat list \<Rightarrow> nat list \<Rightarrow> error + nat list" where
  "nn_loop points current unvisited path =
     (if unvisited = [] then Inr path
      else (case argmin (map (\<lambda>u. euclid (points ! current) (points ! u)) unvisited) of
              Inl e \<Rightarrow> Inl e
            | Inr nearest_idx \<Rightarrow>
                (let nearest = unvisited ! nearest_idx
                 in nn_loop points nearest (remove1 nearest unvisited) (path @ [nearest]))))"
  by pat_completeness auto
termination
proof (relation "measure (\<lambda>(points, current, unvisited, path). length unvisited)")
  show "wf (measure (\<lambda>(points, current, unvisited, path). length unvisited))"
    by simp
next
  fix points :: "point list" and current :: nat and unvisited path :: "nat list"
    and nearest_idx nearest :: nat
  assume ne: "unvisited \<noteq> []"
    and a: "argmin (map (\<lambda>u. euclid (points ! current) (points ! u)) unvisited) = Inr nearest_idx"
    and n: "nearest = unvisited ! nearest_idx"
  have "nearest_idx < length unvisited"
    using argmin_less [OF a] by simp
  then have "nearest \<in> set unvisited"
    using n by simp
  then show "((points, nearest, remove1 nearest unvisited, path @ [nearest]),
              (points, current, unvisited, path))
             \<in> measure (\<lambda>(points, current, unvisited, path). length unvisited)"
    using ne by (simp add: length_remove1 less_Suc_eq_0_disj Suc_pred)
qed

declare nn_loop.simps [simp del]

text \<open>
  \<open>nearest_neighbor_tsp\<close>: \<open>unvisited.remove(0)\<close> raises \<open>KeyError\<close> when there is no point at
  all (\<open>n = 0\<close>).
\<close>

definition nearest_neighbor_tsp :: "point list \<Rightarrow> error + nat list" where
  "nearest_neighbor_tsp points =
     (let n = length points;
          unvisited = [0..<n]
      in if 0 \<notin> set unvisited then Inl KeyError
         else nn_loop points 0 (remove1 0 unvisited) [0])"

text \<open>
  \<open>points[k]\<close> for a tour entry \<open>k\<close>: the entry must index the array. The distance between
  the points of two tour entries is \<open>np.linalg.norm(points[a] - points[b])\<close>.
\<close>

definition point_at :: "point list \<Rightarrow> nat \<Rightarrow> error + point" where
  "point_at points k = (if k < length points then Inr (points ! k) else Inl IndexError)"

definition edge :: "point list \<Rightarrow> nat \<Rightarrow> nat \<Rightarrow> error + real" where
  "edge points a b =
     (case point_at points a of Inl e \<Rightarrow> Inl e | Inr p \<Rightarrow>
       (case point_at points b of Inl e \<Rightarrow> Inl e | Inr q \<Rightarrow> Inr (euclid p q)))"

text \<open>\<open>path[i:j+1] = path[i:j+1][::-1]\<close>.\<close>

definition reverse_segment :: "nat list \<Rightarrow> nat \<Rightarrow> nat \<Rightarrow> nat list" where
  "reverse_segment path i j = take i path @ rev (take (j + 1 - i) (drop i path)) @ drop (j + 1) path"

text \<open>
  The body of the two nested loops of \<open>two_opt\<close> for one pair \<open>(i, j)\<close>, on the state
  \<open>(path, improved)\<close>; \<open>n\<close> is \<open>len(path)\<close>, read once before the loops. The edge after
  position \<open>j\<close> ends at position \<open>(j + 1) % n\<close>: for \<open>j = n - 1\<close> that is position \<open>0\<close>.
\<close>

definition two_opt_body ::
  "point list \<Rightarrow> nat \<Rightarrow> nat \<Rightarrow> nat \<Rightarrow> nat list \<times> bool \<Rightarrow> error + nat list \<times> bool" where
  "two_opt_body points n i j st =
     (let path = fst st; improved = snd st in
      case edge points (path ! (i - 1)) (path ! i) of Inl e \<Rightarrow> Inl e | Inr d1 \<Rightarrow>
       (case edge points (path ! j) (path ! ((j + 1) mod n)) of Inl e \<Rightarrow> Inl e | Inr d2 \<Rightarrow>
         (case edge points (path ! (i - 1)) (path ! j) of Inl e \<Rightarrow> Inl e | Inr d3 \<Rightarrow>
           (case edge points (path ! i) (path ! ((j + 1) mod n)) of Inl e \<Rightarrow> Inl e | Inr d4 \<Rightarrow>
             (let current_dist = d1 + d2; new_dist = d3 + d4
              in if new_dist < current_dist then Inr (reverse_segment path i j, True)
                 else Inr (path, improved))))))"

text \<open>\<open>for j in range(i + 1, n)\<close> and \<open>for i in range(1, n - 1)\<close>.\<close>

fun two_opt_inner ::
  "point list \<Rightarrow> nat \<Rightarrow> nat \<Rightarrow> nat list \<Rightarrow> nat list \<times> bool \<Rightarrow> error + nat list \<times> bool" where
  "two_opt_inner points n i [] st = Inr st"
| "two_opt_inner points n i (j # js) st =
     (case two_opt_body points n i j st of Inl e \<Rightarrow> Inl e
      | Inr st' \<Rightarrow> two_opt_inner points n i js st')"

fun two_opt_outer ::
  "point list \<Rightarrow> nat \<Rightarrow> nat list \<Rightarrow> nat list \<times> bool \<Rightarrow> error + nat list \<times> bool" where
  "two_opt_outer points n [] st = Inr st"
| "two_opt_outer points n (i # is) st =
     (case two_opt_inner points n i [i + 1..<n] st of Inl e \<Rightarrow> Inl e
      | Inr st' \<Rightarrow> two_opt_outer points n is st')"

text \<open>
  \<open>while improved and iter_count < iterations\<close>: each pass clears \<open>improved\<close>, counts itself
  and sweeps all pairs.
\<close>

function two_opt_while ::
  "point list \<Rightarrow> nat \<Rightarrow> int \<Rightarrow> nat list \<Rightarrow> bool \<Rightarrow> int \<Rightarrow> error + nat list" where
  "two_opt_while points n iterations path improved iter_count =
     (if improved \<and> iter_count < iterations then
        (case two_opt_outer points n [1..<n - 1] (path, False) of
           Inl e \<Rightarrow> Inl e
         | Inr st \<Rightarrow> two_opt_while points n iterations (fst st) (snd st) (iter_count + 1))
      else Inr path)"
  by pat_completeness auto
termination
  by (relation "measure (\<lambda>(points, n, iterations, path, improved, iter_count).
        nat (iterations - iter_count))") auto

declare two_opt_while.simps [simp del]

definition two_opt :: "point list \<Rightarrow> nat list \<Rightarrow> int \<Rightarrow> error + nat list" where
  "two_opt points initial_path iterations =
     two_opt_while points (length initial_path) iterations initial_path True 0"

text \<open>
  The length \<open>solve_tsp\<close> reports for the ordered points \<open>points[path]\<close>:
  \<open>np.sum(np.linalg.norm(np.diff(ordered_points, axis=0), axis=1))\<close>, the open path.
\<close>

definition total_distance :: "point list \<Rightarrow> real" where
  "total_distance ps = sum_list (map (\<lambda>(a, b). euclid b a) (zip ps (tl ps)))"

text \<open>
  \<open>solve_tsp\<close>: the nearest-neighbour tour, improved by 2-opt when \<open>method\<close> is \<open>'2opt'\<close>.
  The elapsed time and the total distance are only printed.
\<close>

definition solve_tsp :: "point list \<Rightarrow> string \<Rightarrow> int \<Rightarrow> error + nat list" where
  "solve_tsp points method two_opt_iter =
     (case nearest_neighbor_tsp points of Inl e \<Rightarrow> Inl e
      | Inr path \<Rightarrow>
          (if method = ''2opt'' then two_opt points path two_opt_iter else Inr path))"

text \<open>
  The length of the closed tour through the ordered points: the open path and the edge
  from the last point back to the first. This is the quantity the 2-opt test compares.
\<close>

definition cycle_length :: "point list \<Rightarrow> real" where
  "cycle_length ps = total_distance ps + (if ps = [] then 0 else euclid (last ps) (hd ps))"

text \<open>
  What one pass of the 2-opt loops keeps: the tour \<open>path'\<close> has the entries of \<open>path\<close>, the
  same first entry, and a closed tour that is not longer.
\<close>

definition tour_improves :: "point list \<Rightarrow> nat list \<Rightarrow> nat list \<Rightarrow> bool" where
  "tour_improves points path path' \<longleftrightarrow>
     mset path' = mset path \<and> hd path' = hd path
     \<and> cycle_length (map ((!) points) path') \<le> cycle_length (map ((!) points) path)"

text \<open>
  \<open>v\<close> is the nearest point not in \<open>visited\<close>, seen from the last visited point, and the
  lowest index among the nearest ones.
\<close>

definition nearest_unvisited :: "point list \<Rightarrow> nat list \<Rightarrow> nat \<Rightarrow> bool" where
  "nearest_unvisited points visited v \<longleftrightarrow>
     v < length points \<and> v \<notin> set visited
     \<and> (\<forall>u<length points. u \<notin> set visited \<longrightarrow>
            euclid (points ! last visited) (points ! v) \<le> euclid (points ! last visited) (points ! u)
            \<and> (euclid (points ! last visited) (points ! u) = euclid (points ! last visited) (points ! v)
                 \<longrightarrow> v \<le> u))"

section \<open>Floating-point special values and the smoothed Julia field (julia\_set.py)\<close>

text \<open>
  A floating-point value where the source can produce a special value: a finite number
  (a real; finite arithmetic is taken as exact and overflow is not modelled), an
  infinity, or not-a-number. The operations follow IEEE 754 on the special values:
  a non-zero number divided by zero is an infinity, \<open>0/0\<close> and \<open>inf - inf\<close> are NaN,
  \<open>log 0 = -inf\<close>, the logarithm of a negative number is NaN. The sign of zero is not
  modelled (a zero divisor counts as \<open>+0\<close>).
\<close>

datatype fp = Fin real | PInf | NInf | NaN




fun fp_div :: "fp \<Rightarrow> fp \<Rightarrow> fp" where
  "fp_div (Fin a) (Fin b) =
     (if b \<noteq> 0 then Fin (a / b) else if a = 0 then NaN else if 0 < a then PInf else NInf)"
| "fp_div NaN _ = NaN"
| "fp_div _ NaN = NaN"
| "fp_div (Fin a) _ = Fin 0"
| "fp_div PInf (Fin b) = (if 0 \<le> b then PInf else NInf)"
| "fp_div NInf (Fin b) = (if 0 \<le> b then NInf else PInf)"
| "fp_div _ _ = NaN"






section \<open>Colours for the renderer (create\_gradient\_line\_plot)\<close>

text \<open>
  \<open>xs[path]\<close> for an array \<open>xs\<close> and a list of indices: the entries in tour order; an index
  outside the array raises.
\<close>

definition take_indices :: "'a list \<Rightarrow> nat list \<Rightarrow> error + 'a list" where
  "take_indices xs path =
     (if \<forall>k \<in> set path. k < length xs then Inr (map ((!) xs) path) else Inl IndexError)"

text \<open>
  What \<open>create_gradient_line_plot\<close> hands to the renderer (lines 243 to 261): the segments
  between consecutive tour points and one colour value per segment. By position the
  values are \<open>np.linspace(0, 1, len(segments))\<close>; by iteration they are the iteration values
  of all tour points but the last, divided by their maximum: \<open>colors / colors.max()\<close>,
  where the maximum of an empty array raises. Any other \<open>color_by\<close> leaves \<open>colors\<close>
  unassigned.
\<close>

definition line_colors ::
  "point list \<Rightarrow> nat list \<Rightarrow> real list \<Rightarrow> string \<Rightarrow> error + (point \<times> point) list \<times> fp list" where
  "line_colors points path iterations color_by =
     (case take_indices points path of Inl e \<Rightarrow> Inl e | Inr ordered_points \<Rightarrow>
       (case take_indices iterations path of Inl e \<Rightarrow> Inl e | Inr ordered_iterations \<Rightarrow>
         (let segments = zip ordered_points (tl ordered_points) in
          if color_by = ''position'' then
            (case linspace 0 1 (int (length segments)) of Inl e \<Rightarrow> Inl e
             | Inr colors \<Rightarrow> Inr (segments, map Fin colors))
          else if color_by = ''iteration'' then
            (let colors = butlast ordered_iterations in
             if colors = [] then Inl ValueError
             else Inr (segments, map (\<lambda>c. fp_div (Fin c) (Fin (Max (set colors)))) colors))
          else Inl UnboundLocalError)))"

section \<open>Point extraction (extract\_points)\<close>

text \<open>
  \<open>np.gradient\<close> with unit spacing along one axis: central differences inside, one-sided
  differences at the two ends. It needs at least two entries along every axis and raises
  otherwise. For a two-dimensional array it returns the gradient along the rows index
  first (\<open>grad_y\<close>) and along the columns index second (\<open>grad_x\<close>).
\<close>

definition gradient1 :: "real list \<Rightarrow> real list" where
  "gradient1 f =
     map (\<lambda>k. if k = 0 then f ! 1 - f ! 0
               else if k = length f - 1 then f ! (length f - 1) - f ! (length f - 2)
               else (f ! (k + 1) - f ! (k - 1)) / 2)
       [0..<length f]"

definition array_shape :: "'a list list \<Rightarrow> nat \<times> nat" where
  "array_shape A = (length A, if A = [] then 0 else length (hd A))"

definition np_gradient :: "real list list \<Rightarrow> error + real list list \<times> real list list" where
  "np_gradient M =
     (if fst (array_shape M) < 2 \<or> snd (array_shape M) < 2 then Inl ValueError
      else Inr (transpose (map gradient1 (transpose M)), map gradient1 M))"

text \<open>\<open>grad_y, grad_x = np.gradient(M); gradient_magnitude = np.sqrt(grad_x**2 + grad_y**2)\<close>.\<close>

definition gradient_magnitude :: "real list list \<Rightarrow> error + real list list" where
  "gradient_magnitude M =
     (case np_gradient M of Inl e \<Rightarrow> Inl e
      | Inr g \<Rightarrow> Inr (map (map (\<lambda>(gx, gy). sqrt (gx\<^sup>2 + gy\<^sup>2))) (zip2d (snd g) (fst g))))"

text \<open>\<open>np.where(mask)\<close>: the cells that hold, as (row, column) pairs in row-major order.\<close>

definition where_true :: "bool list list \<Rightarrow> (nat \<times> nat) list" where
  "where_true msk =
     concat (map (\<lambda>r. map (\<lambda>k. (r, k)) (filter (\<lambda>k. msk ! r ! k) [0..<length (msk ! r)]))
               [0..<length msk])"

text \<open>
  The random generator of numpy is a parameter of the model: a generator state of type
  \<open>'g\<close> and the two library functions the source calls, each returning its result and the
  next state. \<open>rand_choice g a size replace p\<close> is \<open>np.random.choice(a, size, replace, p)\<close>
  for an integer \<open>a\<close>; \<open>rand_randint g low high size\<close> is \<open>np.random.randint(low, high, size)\<close>.
\<close>

record 'g numpy_random =
  rand_choice :: "'g \<Rightarrow> int \<Rightarrow> int \<Rightarrow> bool \<Rightarrow> fp list option \<Rightarrow> (error + nat list) \<times> 'g"
  rand_randint :: "'g \<Rightarrow> int \<Rightarrow> int \<Rightarrow> int \<Rightarrow> (error + nat list) \<times> 'g"

text \<open>
  What numpy documents for \<open>choice\<close>. It raises \<open>ValueError\<close> when the population is empty
  and a sample is asked for, when the size is negative, when \<open>p\<close> has another length than
  the population, holds NaN or a negative entry or does not sum to 1, and, without
  replacement, when the size exceeds the population or the number of non-zero entries of
  \<open>p\<close>. Otherwise it returns \<open>size\<close> indices below \<open>a\<close>, each of non-zero probability, and
  without replacement no index twice.
\<close>

fun fp_positive :: "fp \<Rightarrow> bool" where
  "fp_positive (Fin v) = (0 < v)"
| "fp_positive PInf = True"
| "fp_positive _ = False"

fun fp_probability :: "fp \<Rightarrow> bool" where
  "fp_probability (Fin v) = (0 \<le> v)"
| "fp_probability _ = False"

fun fp_value :: "fp \<Rightarrow> real" where
  "fp_value (Fin v) = v"
| "fp_value _ = 0"

definition probabilities_ok :: "fp list \<Rightarrow> bool" where
  "probabilities_ok p \<longleftrightarrow> (\<forall>x \<in> set p. fp_probability x) \<and> sum_list (map fp_value p) = 1"

definition choice_raises :: "int \<Rightarrow> int \<Rightarrow> bool \<Rightarrow> fp list option \<Rightarrow> bool" where
  "choice_raises a sz replace p \<longleftrightarrow>
     (a \<le> 0 \<and> sz \<noteq> 0) \<or> sz < 0
     \<or> (case p of None \<Rightarrow> False | Some ps \<Rightarrow> int (length ps) \<noteq> a \<or> \<not> probabilities_ok ps)
     \<or> (\<not> replace \<and>
          (a < sz \<or> (case p of None \<Rightarrow> False
                        | Some ps \<Rightarrow> int (length (filter fp_positive ps)) < sz)))"



text \<open>
  The boundary branch (lines 89 to 112). \<open>None\<close> stands for the fallback: no cell is above
  the threshold and \<open>method\<close> becomes \<open>'gradient'\<close>. Otherwise the cells are sampled without
  replacement when there are more than \<open>num_points\<close>, and all taken (with a printed
  warning) when there are not.
\<close>

definition select_boundary ::
  "'g numpy_random \<Rightarrow> 'g \<Rightarrow> real list list \<Rightarrow> int \<Rightarrow> real
     \<Rightarrow> error + (nat list \<times> nat list) option" where
  "select_boundary rng g M num_points threshold =
     (case gradient_magnitude M of Inl e \<Rightarrow> Inl e
      | Inr gm \<Rightarrow>
          (let boundary_indices = where_true (map (map (\<lambda>v. threshold < v)) gm);
               total_boundary = length boundary_indices
           in if total_boundary = 0 then Inr None
              else (case (if num_points < int total_boundary
                          then fst (rand_choice rng g (int total_boundary) num_points False None)
                          else Inr [0..<total_boundary]) of
                      Inl e \<Rightarrow> Inl e
                    | Inr sample_indices \<Rightarrow>
                        (case take_indices boundary_indices sample_indices of Inl e \<Rightarrow> Inl e
                         | Inr cells \<Rightarrow> Inr (Some (map fst cells, map snd cells))))))"

text \<open>
  The gradient branch (lines 114 to 125): the flattened gradient magnitude divided by its
  sum (NaN everywhere when the sum is zero), a draw of \<open>num_points\<close> flat indices with
  \<open>replace=False\<close>, and \<open>np.unravel_index\<close> back to rows and columns.
\<close>

definition unravel_index :: "nat list \<Rightarrow> nat \<times> nat \<Rightarrow> error + nat list \<times> nat list" where
  "unravel_index flat shp =
     (if \<forall>k \<in> set flat. k < fst shp * snd shp
      then Inr (map (\<lambda>k. k div snd shp) flat, map (\<lambda>k. k mod snd shp) flat)
      else Inl ValueError)"

definition gradient_probabilities :: "real list list \<Rightarrow> fp list" where
  "gradient_probabilities gm =
     map (\<lambda>v. fp_div (Fin v) (Fin (sum_list (concat gm)))) (concat gm)"

definition select_gradient ::
  "'g numpy_random \<Rightarrow> 'g \<Rightarrow> real list list \<Rightarrow> int \<Rightarrow> error + nat list \<times> nat list" where
  "select_gradient rng g M num_points =
     (case gradient_magnitude M of Inl e \<Rightarrow> Inl e
      | Inr gm \<Rightarrow>
          (let prob = gradient_probabilities gm
           in case fst (rand_choice rng g (int (length prob)) num_points False (Some prob)) of
                Inl e \<Rightarrow> Inl e
              | Inr flat_indices \<Rightarrow> unravel_index flat_indices (array_shape M)))"

text \<open>The random branch (lines 127 to 130): two draws, the second from the next state.\<close>

definition select_random ::
  "'g numpy_random \<Rightarrow> 'g \<Rightarrow> real list list \<Rightarrow> int \<Rightarrow> error + nat list \<times> nat list" where
  "select_random rng g M num_points =
     (case rand_randint rng g 0 (int (fst (array_shape M))) num_points of
        (Inl e, _) \<Rightarrow> Inl e
      | (Inr points_y, g1) \<Rightarrow>
          (case fst (rand_randint rng g1 0 (int (snd (array_shape M))) num_points) of
             Inl e \<Rightarrow> Inl e
           | Inr points_x \<Rightarrow> Inr (points_y, points_x)))"

text \<open>
  The cells \<open>(points_y, points_x)\<close> that \<open>extract_points\<close> selects. The first \<open>if\<close> may turn
  \<open>method\<close> into \<open>'gradient'\<close>; the second statement is \<open>if method == 'gradient' ... elif
  method == 'random'\<close>. A method that assigns no cells leaves \<open>points_y\<close> unbound.
\<close>

definition select_cells ::
  "'g numpy_random \<Rightarrow> 'g \<Rightarrow> real list list \<Rightarrow> int \<Rightarrow> string \<Rightarrow> real
     \<Rightarrow> error + nat list \<times> nat list" where
  "select_cells rng g M num_points method threshold =
     (case (if method = ''boundary'' then select_boundary rng g M num_points threshold
            else Inr None) of
        Inl e \<Rightarrow> Inl e
      | Inr found \<Rightarrow>
          (let method' = (if method = ''boundary'' \<and> found = None then ''gradient'' else method)
           in if method' = ''gradient'' then select_gradient rng g M num_points
              else if method' = ''random'' then select_random rng g M num_points
              else (case found of None \<Rightarrow> Inl UnboundLocalError | Some cells \<Rightarrow> Inr cells)))"

text \<open>\<open>A[points_y, points_x]\<close>: the entries at the paired rows and columns.\<close>

definition take_cells :: "'a list list \<Rightarrow> nat list \<Rightarrow> nat list \<Rightarrow> error + 'a list" where
  "take_cells A ys xs =
     (if length ys = length xs \<and> (\<forall>c \<in> set (zip ys xs). fst c < length A \<and> snd c < length (A ! fst c))
      then Inr (map (\<lambda>c. A ! fst c ! snd c) (zip ys xs))
      else Inl IndexError)"

text \<open>\<open>extract_points\<close>: the coordinates and the iteration values of the selected cells.\<close>

definition extract_points ::
  "'g numpy_random \<Rightarrow> 'g \<Rightarrow> real list list \<Rightarrow> real list list \<Rightarrow> real list list \<Rightarrow> int \<Rightarrow> string \<Rightarrow> real
     \<Rightarrow> error + point list \<times> real list" where
  "extract_points rng g M X Y num_points method threshold =
     (case select_cells rng g M num_points method threshold of Inl e \<Rightarrow> Inl e
      | Inr cells \<Rightarrow>
          (case take_cells X (fst cells) (snd cells) of Inl e \<Rightarrow> Inl e | Inr px \<Rightarrow>
            (case take_cells Y (fst cells) (snd cells) of Inl e \<Rightarrow> Inl e | Inr py \<Rightarrow>
              (case take_cells M (fst cells) (snd cells) of Inl e \<Rightarrow> Inl e
               | Inr iterations \<Rightarrow> Inr (zip px py, iterations)))))"



section \<open>The pipeline (main)\<close>

text \<open>
  The module constants that \<open>main\<close> passes on are the fields of a configuration. \<open>main\<close>
  runs the field evaluation, the extraction, the tour solver and the colouring in this
  order; the first exception ends the run. The result is what the renderer receives.
\<close>

record config =
  MANDELBROT_WIDTH :: int
  MANDELBROT_HEIGHT :: int
  X_MIN :: real
  X_MAX :: real
  Y_MIN :: real
  Y_MAX :: real
  MAX_ITER :: int
  NUM_POINTS :: int
  BOUNDARY_THRESHOLD :: real
  SAMPLE_METHOD :: string
  TSP_METHOD :: string
  TWO_OPT_ITERATIONS :: int
  COLOR_BY :: string

definition main :: "'g numpy_random \<Rightarrow> 'g \<Rightarrow> config \<Rightarrow> error + (point \<times> point) list \<times> fp list" where
  "main rng g cfg =
     (case calculate_mandelbrot (MANDELBROT_WIDTH cfg) (MANDELBROT_HEIGHT cfg)
             (X_MIN cfg) (X_MAX cfg) (Y_MIN cfg) (Y_MAX cfg) (MAX_ITER cfg) of
        Inl e \<Rightarrow> Inl e
      | Inr MXY \<Rightarrow>
          (case extract_points rng g (fst MXY) (fst (snd MXY)) (snd (snd MXY))
                  (NUM_POINTS cfg) (SAMPLE_METHOD cfg) (BOUNDARY_THRESHOLD cfg) of
             Inl e \<Rightarrow> Inl e
           | Inr extracted \<Rightarrow>
               (case solve_tsp (fst extracted) (TSP_METHOD cfg) (TWO_OPT_ITERATIONS cfg) of
                  Inl e \<Rightarrow> Inl e
                | Inr path \<Rightarrow>
                    line_colors (fst extracted) path (snd extracted) (COLOR_BY cfg))))"

section \<open>A generator for concrete runs\<close>

text \<open>
  A deterministic generator that meets the documented behaviour of \<open>choice\<close>, used where
  a run is evaluated on a concrete input: \<open>choice\<close> returns the lowest admissible indices,
  \<open>randint\<close> counts upwards from the state.
\<close>

definition choice_candidates :: "int \<Rightarrow> fp list option \<Rightarrow> nat list" where
  "choice_candidates a p =
     filter (\<lambda>k. case p of None \<Rightarrow> True | Some ps \<Rightarrow> fp_positive (ps ! k)) [0..<nat a]"

definition lowest_choice ::
  "nat \<Rightarrow> int \<Rightarrow> int \<Rightarrow> bool \<Rightarrow> fp list option \<Rightarrow> (error + nat list) \<times> nat" where
  "lowest_choice g a sz replace p =
     (if choice_raises a sz replace p then (Inl ValueError, g)
      else if replace then (Inr (replicate (nat sz) (hd (choice_candidates a p))), g + 1)
      else (Inr (take (nat sz) (choice_candidates a p)), g + 1))"

definition counting_randint :: "nat \<Rightarrow> int \<Rightarrow> int \<Rightarrow> int \<Rightarrow> (error + nat list) \<times> nat" where
  "counting_randint g low high sz =
     (if high \<le> low \<or> sz < 0 then (Inl ValueError, g)
      else (Inr (map (\<lambda>i. nat (low + int (g + i) mod (high - low))) [0..<nat sz]), g + nat sz))"

definition lowest_rng :: "nat numpy_random" where
  "lowest_rng = \<lparr>rand_choice = lowest_choice, rand_randint = counting_randint\<rparr>"

text \<open>
  A configuration with invalid region bounds (\<open>x_min > x_max\<close>, \<open>y_min = y_max\<close>) on a
  \<open>2 \<times> 2\<close> grid, used as an example.
\<close>

definition bad_bounds :: config where
  "bad_bounds = \<lparr>MANDELBROT_WIDTH = 2, MANDELBROT_HEIGHT = 2, X_MIN = 1, X_MAX = 0,
     Y_MIN = 0, Y_MAX = 0, MAX_ITER = 2, NUM_POINTS = 2, BOUNDARY_THRESHOLD = 5,
     SAMPLE_METHOD = ''random'', TSP_METHOD = ''2opt'', TWO_OPT_ITERATIONS = 5,
     COLOR_BY = ''position''\<rparr>"

section \<open>Arrays: shapes and entries\<close>

lemma shaped_iff_nth: "shaped h w A \<longleftrightarrow> length A = h \<and> (\<forall>r<h. length (A ! r) = w)"
  by (auto simp: shaped_def all_set_conv_all_nth)

lemma shaped_nth: "shaped h w A \<Longrightarrow> r < h \<Longrightarrow> length (A ! r) = w"
  by (simp add: shaped_iff_nth)

lemma shaped_map_map: "shaped h w A \<Longrightarrow> shaped h w (map (map f) A)"
  by (auto simp: shaped_def)

lemma nth_map_map: "shaped h w A \<Longrightarrow> r < h \<Longrightarrow> k < w \<Longrightarrow> map (map f) A ! r ! k = f (A ! r ! k)"
  by (simp add: shaped_def)

lemma shaped_zip2d: "shaped h w A \<Longrightarrow> shaped h w B \<Longrightarrow> shaped h w (zip2d A B)"
  by (simp add: shaped_iff_nth zip2d_def)

lemma nth_zip2d:
  "shaped h w A \<Longrightarrow> shaped h w B \<Longrightarrow> r < h \<Longrightarrow> k < w \<Longrightarrow> zip2d A B ! r ! k = (A ! r ! k, B ! r ! k)"
  by (simp add: shaped_def zip2d_def)

lemma shaped_assign_where:
  "shaped h w msk \<Longrightarrow> shaped h w A \<Longrightarrow> shaped h w V \<Longrightarrow> shaped h w (assign_where msk A V)"
  using shaped_zip2d [of h w A V]
  by (simp add: shaped_iff_nth assign_where_def)

lemma nth_assign_where:
  assumes "shaped h w msk" "shaped h w A" "shaped h w V" "r < h" "k < w"
  shows "assign_where msk A V ! r ! k = (if msk ! r ! k then V ! r ! k else A ! r ! k)"
proof -
  have z: "shaped h w (zip2d A V)"
    using assms by (simp add: shaped_zip2d)
  have "assign_where msk A V ! r
      = map (\<lambda>(m, a, v). if m then v else a) (zip (msk ! r) (zip2d A V ! r))"
    using assms z by (simp add: assign_where_def shaped_def)
  moreover have "length (msk ! r) = w" "length (zip2d A V ! r) = w"
    using assms z by (simp_all add: shaped_nth)
  ultimately show ?thesis
    using assms by (simp add: nth_zip2d)
qed

section \<open>The escape loop, cell by cell\<close>

lemma shaped_escape_step:
  assumes "shaped h w C" "shaped h w Z" "shaped h w M"
  shows "shaped h w (fst (escape_step C (Z, M) i))" "shaped h w (snd (escape_step C (Z, M) i))"
  using assms
  by (simp_all add: escape_step_def Let_def shaped_assign_where shaped_map_map shaped_zip2d)

lemma nth_escape_step:
  assumes "shaped h w C" "shaped h w Z" "shaped h w M" "r < h" "k < w"
  shows "(fst (escape_step C (Z, M) i) ! r ! k, snd (escape_step C (Z, M) i) ! r ! k)
       = cell_step (C ! r ! k) (Z ! r ! k, M ! r ! k) i"
proof -
  let ?msk = "map (map (\<lambda>z. cmod z \<le> 2)) Z"
  let ?V = "map (map (\<lambda>(z, c). z\<^sup>2 + c)) (zip2d Z C)"
  let ?I = "map (map (\<lambda>_. real i)) M"
  have sh: "shaped h w ?msk" "shaped h w ?V" "shaped h w ?I" "shaped h w (zip2d Z C)"
    using assms by (simp_all add: shaped_map_map shaped_zip2d)
  have m: "?msk ! r ! k \<longleftrightarrow> cmod (Z ! r ! k) \<le> 2"
    using assms by (simp add: nth_map_map)
  have v: "?V ! r ! k = (Z ! r ! k)\<^sup>2 + C ! r ! k"
    using assms sh(4) by (simp add: nth_map_map nth_zip2d)
  have i: "?I ! r ! k = real i"
    using assms by (simp add: nth_map_map)
  have "fst (escape_step C (Z, M) i) ! r ! k
      = (if cmod (Z ! r ! k) \<le> 2 then (Z ! r ! k)\<^sup>2 + C ! r ! k else Z ! r ! k)"
    using nth_assign_where [OF sh(1) assms(2) sh(2) assms(4,5)] m v
    by (simp add: escape_step_def Let_def)
  moreover have "snd (escape_step C (Z, M) i) ! r ! k
      = (if cmod (Z ! r ! k) \<le> 2 then real i else M ! r ! k)"
    using nth_assign_where [OF sh(1) assms(3) sh(3) assms(4,5)] m i
    by (simp add: escape_step_def Let_def)
  ultimately show ?thesis
    by (simp add: cell_step_def)
qed

lemma foldl_escape_step:
  assumes "shaped h w C" "shaped h w Z" "shaped h w M"
  shows "shaped h w (fst (foldl (escape_step C) (Z, M) js))
       \<and> shaped h w (snd (foldl (escape_step C) (Z, M) js))
       \<and> (\<forall>r<h. \<forall>k<w.
            (fst (foldl (escape_step C) (Z, M) js) ! r ! k,
             snd (foldl (escape_step C) (Z, M) js) ! r ! k)
            = foldl (cell_step (C ! r ! k)) (Z ! r ! k, M ! r ! k) js)"
  using assms
proof (induction js arbitrary: Z M)
  case Nil
  then show ?case by simp
next
  case (Cons j js)
  let ?Z = "fst (escape_step C (Z, M) j)" and ?M = "snd (escape_step C (Z, M) j)"
  have s: "shaped h w ?Z" "shaped h w ?M"
    using Cons.prems by (simp_all add: shaped_escape_step)
  have e: "escape_step C (Z, M) j = (?Z, ?M)" by simp
  have c: "\<And>r k. r < h \<Longrightarrow> k < w \<Longrightarrow>
      (?Z ! r ! k, ?M ! r ! k) = cell_step (C ! r ! k) (Z ! r ! k, M ! r ! k) j"
    using nth_escape_step [OF Cons.prems] by blast
  have f: "foldl (escape_step C) (Z, M) (j # js) = foldl (escape_step C) (?Z, ?M) js"
    by simp
  show ?case
    unfolding f using Cons.IH [OF Cons.prems(1) s] c by simp
qed







lemma linspace_Inr: "0 \<le> num \<Longrightarrow> \<exists>x. linspace a b num = Inr x \<and> length x = nat num"
  by (simp add: linspace_def)

lemma shaped_meshgrid:
  "shaped (length y) (length x) (fst (meshgrid x y))" "shaped (length y) (length x) (snd (meshgrid x y))"
  by (simp_all add: meshgrid_def shaped_iff_nth)


lemma shaped_complex_plane: "shaped h w X \<Longrightarrow> shaped h w Y \<Longrightarrow> shaped h w (complex_plane X Y)"
  by (simp add: complex_plane_def shaped_map_map shaped_zip2d)


lemma shaped_const: "shaped h w A \<Longrightarrow> shaped h w (map (map (\<lambda>_. v)) A)"
  by (rule shaped_map_map)

lemma escape_loop_cells:
  assumes "shaped h w C" "shaped h w Z" "shaped h w A"
  shows "shaped h w (fst (foldl (escape_step C) (Z, map (map (\<lambda>_. 0)) A) [0..<n]))"
    and "shaped h w (snd (foldl (escape_step C) (Z, map (map (\<lambda>_. 0)) A) [0..<n]))"
    and "r < h \<Longrightarrow> k < w \<Longrightarrow>
          snd (foldl (escape_step C) (Z, map (map (\<lambda>_. 0)) A) [0..<n]) ! r ! k
          = snd (cell_run (C ! r ! k) (Z ! r ! k) n)"
proof -
  have m: "shaped h w (map (map (\<lambda>_. 0::real)) A)"
    using assms by (simp add: shaped_map_map)
  note f = foldl_escape_step [OF assms(1,2) m, of "[0..<n]"]
  show "shaped h w (fst (foldl (escape_step C) (Z, map (map (\<lambda>_. 0)) A) [0..<n]))"
    and "shaped h w (snd (foldl (escape_step C) (Z, map (map (\<lambda>_. 0)) A) [0..<n]))"
    using f by simp_all
  assume rk: "r < h" "k < w"
  have "map (map (\<lambda>_. 0::real)) A ! r ! k = 0"
    using assms rk by (simp add: nth_map_map)
  then show "snd (foldl (escape_step C) (Z, map (map (\<lambda>_. 0)) A) [0..<n]) ! r ! k
      = snd (cell_run (C ! r ! k) (Z ! r ! k) n)"
    using f rk by (simp add: cell_run_def prod_eq_iff)
qed








section \<open>The nearest-neighbour tour\<close>

lemma first_index_holds: "\<exists>x \<in> set xs. P x \<Longrightarrow> P (xs ! first_index P xs)"
  by (induction xs) auto

lemma first_index_least: "k < length xs \<Longrightarrow> P (xs ! k) \<Longrightarrow> first_index P xs \<le> k"
proof (induction xs arbitrary: k)
  case Nil
  then show ?case by simp
next
  case (Cons x xs)
  then show ?case by (cases k) auto
qed

lemma argmin_Inr: "ds \<noteq> [] \<Longrightarrow> \<exists>k. argmin ds = Inr k"
  by (simp add: argmin_def)

lemma argmin_min:
  assumes "argmin ds = Inr k" "m < length ds"
  shows "ds ! k \<le> ds ! m" and "ds ! m = ds ! k \<Longrightarrow> k \<le> m"
proof -
  have ne: "ds \<noteq> []" and k: "k = first_index (\<lambda>d. d = Min (set ds)) ds"
    using assms(1) by (auto simp: argmin_def split: if_splits)
  have "Min (set ds) \<in> set ds"
    using ne by (intro Min_in) simp_all
  then have v: "ds ! k = Min (set ds)"
    unfolding k by (intro first_index_holds) auto
  show "ds ! k \<le> ds ! m"
    using v assms(2) by simp
  assume "ds ! m = ds ! k"
  then show "k \<le> m"
    unfolding k using v assms(2) k by (intro first_index_least) simp_all
qed

lemma nn_loop_greedy:
  assumes "sorted unvisited" "distinct unvisited" "set unvisited \<inter> set path = {}"
    "set unvisited \<union> set path = {..<length points}" "path \<noteq> []" "last path = current"
  shows "\<exists>rest. nn_loop points current unvisited path = Inr (path @ rest)
           \<and> set rest = set unvisited \<and> distinct rest
           \<and> (\<forall>k<length rest. nearest_unvisited points (path @ take k rest) (rest ! k))"
  using assms
proof (induction points current unvisited path rule: nn_loop.induct)
  case (1 points current unvisited path)
  show ?case
  proof (cases "unvisited = []")
    case True
    then show ?thesis
      using nn_loop.simps [of points current unvisited path] by simp
  next
    case False
    let ?ds = "map (\<lambda>u. euclid (points ! current) (points ! u)) unvisited"
    obtain idx where a: "argmin ?ds = Inr idx"
      using argmin_Inr [of ?ds] False by auto
    define nearest where "nearest = unvisited ! idx"
    have idx: "idx < length unvisited"
      using argmin_less [OF a] by simp
    have mem: "nearest \<in> set unvisited"
      using idx by (simp add: nearest_def)
    have step: "nn_loop points current unvisited path
        = nn_loop points nearest (remove1 nearest unvisited) (path @ [nearest])"
      using False a nn_loop.simps [of points current unvisited path] by (simp add: nearest_def Let_def)
    have near: "nearest_unvisited points path nearest"
      unfolding nearest_unvisited_def
    proof (intro conjI allI impI)
      show "nearest < length points"
        using mem "1.prems"(4) by auto
      show "nearest \<notin> set path"
        using mem "1.prems"(3) by auto
    next
      fix u assume u: "u < length points" "u \<notin> set path"
      then have "u \<in> set unvisited"
        using "1.prems"(4) by auto
      then obtain m where m: "m < length unvisited" "unvisited ! m = u"
        by (auto simp: in_set_conv_nth)
      have le: "?ds ! idx \<le> ?ds ! m"
        using argmin_min(1) [OF a, of m] m by simp
      then show "euclid (points ! last path) (points ! nearest)
          \<le> euclid (points ! last path) (points ! u)"
        using idx m by (simp add: nearest_def "1.prems"(6))
      assume "euclid (points ! last path) (points ! u) = euclid (points ! last path) (points ! nearest)"
      then have "?ds ! m = ?ds ! idx"
        using idx m by (simp add: nearest_def "1.prems"(6))
      then have "idx \<le> m"
        using argmin_min(2) [OF a, of m] m by simp
      then show "nearest \<le> u"
        using sorted_nth_mono [OF "1.prems"(1), of idx m] m by (simp add: nearest_def)
    qed
    have "\<exists>rest. nn_loop points nearest (remove1 nearest unvisited) (path @ [nearest])
             = Inr ((path @ [nearest]) @ rest)
           \<and> set rest = set (remove1 nearest unvisited) \<and> distinct rest
           \<and> (\<forall>k<length rest. nearest_unvisited points ((path @ [nearest]) @ take k rest) (rest ! k))"
    proof (rule "1.IH" [OF False a nearest_def])
      show "sorted (remove1 nearest unvisited)"
        using "1.prems"(1) by (rule sorted_remove1)
      show "distinct (remove1 nearest unvisited)"
        using "1.prems"(2) by simp
      show "set (remove1 nearest unvisited) \<inter> set (path @ [nearest]) = {}"
        using "1.prems"(2,3) by auto
      show "set (remove1 nearest unvisited) \<union> set (path @ [nearest]) = {..<length points}"
        using "1.prems"(2,4) mem by auto
      show "path @ [nearest] \<noteq> []"
        by simp
      show "last (path @ [nearest]) = nearest"
        by simp
    qed
    then obtain rest where rest:
      "nn_loop points nearest (remove1 nearest unvisited) (path @ [nearest]) = Inr ((path @ [nearest]) @ rest)"
      "set rest = set (remove1 nearest unvisited)" "distinct rest"
      "\<forall>k<length rest. nearest_unvisited points ((path @ [nearest]) @ take k rest) (rest ! k)"
      by blast
    have "nearest_unvisited points (path @ take k (nearest # rest)) ((nearest # rest) ! k)"
      if "k < length (nearest # rest)" for k
      using that near rest(4) by (cases k) simp_all
    moreover have "set (nearest # rest) = set unvisited" "distinct (nearest # rest)"
      using rest(2,3) mem "1.prems"(2) by auto
    ultimately show ?thesis
      using step rest(1) by (intro exI [of _ "nearest # rest"]) simp
  qed
qed

lemma remove1_0_upt: "set (remove1 0 [0..<n]) = {1..<n}"
  by (simp add: set_remove1_eq) auto

lemma nearest_neighbor_greedy:
  assumes "points \<noteq> []"
  shows "\<exists>path. nearest_neighbor_tsp points = Inr path
           \<and> mset path = mset [0..<length points] \<and> hd path = 0
           \<and> (\<forall>k. k + 1 < length points \<longrightarrow>
                 nearest_unvisited points (take (k + 1) path) (path ! (k + 1)))"
proof -
  define n where "n = length points"
  have n: "0 < n"
    using assms by (simp add: n_def)
  have "\<exists>rest. nn_loop points 0 (remove1 0 [0..<n]) [0] = Inr ([0] @ rest)
           \<and> set rest = set (remove1 0 [0..<n]) \<and> distinct rest
           \<and> (\<forall>k<length rest. nearest_unvisited points ([0] @ take k rest) (rest ! k))"
  proof (rule nn_loop_greedy)
    show "sorted (remove1 0 [0..<n])"
      by (rule sorted_remove1) simp
    show "distinct (remove1 0 [0..<n])"
      by simp
    show "set (remove1 0 [0..<n]) \<inter> set [0] = {}"
      by (simp add: remove1_0_upt)
    show "set (remove1 0 [0..<n]) \<union> set [0] = {..<length points}"
      using n unfolding remove1_0_upt n_def by auto
    show "[0] \<noteq> []"
      by simp
    show "last [0] = 0"
      by simp
  qed
  then obtain rest where rest: "nn_loop points 0 (remove1 0 [0..<n]) [0] = Inr (0 # rest)"
    "set rest = {1..<n}" "distinct rest"
    "\<forall>k<length rest. nearest_unvisited points (0 # take k rest) (rest ! k)"
    unfolding remove1_0_upt by auto
  have "0 \<in> set [0..<n]"
    using n by simp
  then have run: "nearest_neighbor_tsp points = Inr (0 # rest)"
    using rest(1) unfolding nearest_neighbor_tsp_def Let_def n_def by simp
  have d: "distinct (0 # rest)"
    using rest(2,3) by simp
  have "set (0 # rest) = insert 0 {1..<n}"
    using rest(2) by simp
  also have "\<dots> = set [0..<n]"
    using n by auto
  finally have perm: "mset (0 # rest) = mset [0..<n]"
    using d set_eq_iff_mset_eq_distinct [of "0 # rest" "[0..<n]"] by simp
  have len: "length rest + 1 = n"
    using mset_eq_length [OF perm] by simp
  have "nearest_unvisited points (take (k + 1) (0 # rest)) ((0 # rest) ! (k + 1))"
    if "k + 1 < n" for k
    using that rest(4) len by simp
  then show ?thesis
    using run perm unfolding n_def by (intro exI [of _ "0 # rest"]) simp
qed




section \<open>The 2-opt improver\<close>

lemma euclid_sym: "euclid p q = euclid q p"
  by (simp add: euclid_def power2_commute)

lemma total_distance_simps:
  "total_distance [] = 0" "total_distance [a] = 0"
  "total_distance (a # b # ps) = euclid a b + total_distance (b # ps)"
  by (simp_all add: total_distance_def euclid_sym)

lemma total_distance_append:
  "xs \<noteq> [] \<Longrightarrow> ys \<noteq> [] \<Longrightarrow>
     total_distance (xs @ ys) = total_distance xs + euclid (last xs) (hd ys) + total_distance ys"
proof (induction xs rule: induct_list012)
  case 1
  then show ?case by simp
next
  case (2 x)
  then show ?case by (cases ys) (simp_all add: total_distance_simps)
next
  case (3 x y zs)
  then show ?case by (simp add: total_distance_simps)
qed

lemma total_distance_rev: "total_distance (rev xs) = total_distance xs"
proof (induction xs rule: induct_list012)
  case 1
  then show ?case by simp
next
  case (2 x)
  then show ?case by simp
next
  case (3 x y zs)
  have "total_distance (rev (x # y # zs)) = total_distance (rev (y # zs) @ [x])"
    by simp
  also have "\<dots> = total_distance (rev (y # zs)) + euclid (last (rev (y # zs))) x + total_distance [x]"
    by (subst total_distance_append) simp_all
  also have "\<dots> = total_distance (y # zs) + euclid y x"
    using 3 by (simp add: total_distance_simps)
  finally show ?case
    by (simp add: total_distance_simps euclid_sym)
qed

lemma cycle_length_reverse:
  assumes "A \<noteq> []" "B \<noteq> []"
  shows "cycle_length (A @ rev B @ C)
       = cycle_length (A @ B @ C)
         - (euclid (last A) (hd B) + euclid (last B) (if C = [] then hd A else hd C))
         + (euclid (last A) (last B) + euclid (hd B) (if C = [] then hd A else hd C))"
proof (cases "C = []")
  case True
  show ?thesis
    using assms True
    by (simp add: cycle_length_def total_distance_append total_distance_rev hd_rev last_rev)
next
  case False
  have "total_distance (A @ rev B @ C)
      = total_distance A + euclid (last A) (last B) + total_distance B
        + euclid (hd B) (hd C) + total_distance C"
    using assms False
    by (simp add: total_distance_append total_distance_rev hd_rev last_rev hd_append)
  moreover have "total_distance (A @ B @ C)
      = total_distance A + euclid (last A) (hd B) + total_distance B
        + euclid (last B) (hd C) + total_distance C"
    using assms False by (simp add: total_distance_append hd_append)
  ultimately show ?thesis
    using assms False by (simp add: cycle_length_def)
qed

lemma edge_valid:
  "a < length points \<Longrightarrow> b < length points \<Longrightarrow>
     edge points a b = Inr (euclid (points ! a) (points ! b))"
  by (simp add: edge_def point_at_def)

lemma tour_improves_refl: "tour_improves points path path"
  by (simp add: tour_improves_def)

lemma tour_improves_trans:
  "tour_improves points p q \<Longrightarrow> tour_improves points q r \<Longrightarrow> tour_improves points p r"
  by (auto simp: tour_improves_def)

lemma tour_improves_valid:
  "tour_improves points p q \<Longrightarrow> \<forall>k\<in>set p. k < length points \<Longrightarrow> \<forall>k\<in>set q. k < length points"
  using mset_eq_setD [of q p] by (simp add: tour_improves_def)

lemma tour_improves_length: "tour_improves points p q \<Longrightarrow> length q = length p"
  using mset_eq_length [of q p] by (simp add: tour_improves_def)

lemma segment_split:
  assumes "i < j" "j < length path"
  shows "path = take i path @ take (j + 1 - i) (drop i path) @ drop (j + 1) path"
proof -
  have "drop (j + 1) path = drop (j + 1 - i) (drop i path)"
    using assms by simp
  then show ?thesis
    by (metis append_take_drop_id)
qed

lemma reverse_segment_improves:
  assumes v: "\<forall>k\<in>set path. k < length points"
    and ij: "1 \<le> i" "i < j" "j < length path"
  defines "d \<equiv> \<lambda>a b. euclid (points ! (path ! a)) (points ! (path ! b))"
  assumes lt: "d (i - 1) j + d i ((j + 1) mod length path) < d (i - 1) i + d j ((j + 1) mod length path)"
  shows "tour_improves points path (reverse_segment path i j)"
proof -
  let ?f = "(!) points"
  let ?A = "take i path" and ?B = "take (j + 1 - i) (drop i path)" and ?C = "drop (j + 1) path"
  have split: "path = ?A @ ?B @ ?C"
    using ij by (intro segment_split) simp_all
  have A: "?A \<noteq> []" and B: "?B \<noteq> []"
    using ij by auto
  have lastA: "last ?A = path ! (i - 1)"
    using ij last_conv_nth [OF A] by (simp add: min_def)
  have hdA: "hd ?A = path ! 0"
    using ij hd_conv_nth [OF A] by simp
  have hdB: "hd ?B = path ! i"
    using ij hd_conv_nth [OF B] by simp
  have lenB: "length ?B = j + 1 - i"
    using ij by simp
  have "last ?B = ?B ! (j - i)"
    using last_conv_nth [OF B] lenB ij by simp
  also have "\<dots> = drop i path ! (j - i)"
    using ij by simp
  also have "\<dots> = path ! j"
    using ij by simp
  finally have lastB: "last ?B = path ! j" .
  have nxt: "(if ?C = [] then hd ?A else hd ?C) = path ! ((j + 1) mod length path)"
  proof (cases "?C = []")
    case True
    then have "j + 1 = length path"
      using ij by simp
    then show ?thesis
      using True hdA by simp
  next
    case False
    then have "j + 1 < length path"
      by simp
    then show ?thesis
      using False by (simp add: hd_drop_conv_nth)
  qed
  have m: "mset (reverse_segment path i j) = mset path"
    by (subst (2) split) (simp add: reverse_segment_def)
  have h: "hd (reverse_segment path i j) = hd path"
    using ij A by (simp add: reverse_segment_def)
  have mapC: "(if map ?f ?C = [] then hd (map ?f ?A) else hd (map ?f ?C))
      = ?f (path ! ((j + 1) mod length path))"
    using nxt A by (cases "?C = []") (simp_all add: hd_map)
  have "cycle_length (map ?f (reverse_segment path i j))
      = cycle_length (map ?f ?A @ rev (map ?f ?B) @ map ?f ?C)"
    by (simp add: reverse_segment_def rev_map)
  also have "\<dots> = cycle_length (map ?f ?A @ map ?f ?B @ map ?f ?C)
      - (d (i - 1) i + d j ((j + 1) mod length path))
      + (d (i - 1) j + d i ((j + 1) mod length path))"
  proof -
    have mA: "map ?f ?A \<noteq> []" and mB: "map ?f ?B \<noteq> []"
      using A B by simp_all
    have e: "last (map ?f ?A) = ?f (path ! (i - 1))" "hd (map ?f ?B) = ?f (path ! i)"
      "last (map ?f ?B) = ?f (path ! j)"
      using A B lastA hdB lastB by (simp_all add: last_map hd_map)
    show ?thesis
      unfolding cycle_length_reverse [OF mA mB] mapC e d_def ..
  qed
  also have "map ?f ?A @ map ?f ?B @ map ?f ?C = map ?f path"
    by (subst (4) split) simp
  finally have "cycle_length (map ?f (reverse_segment path i j)) \<le> cycle_length (map ?f path)"
    using lt by simp
  then show ?thesis
    using m h by (simp add: tour_improves_def)
qed

lemma two_opt_body_improves:
  assumes v: "\<forall>k\<in>set path. k < length points"
    and ij: "1 \<le> i" "i < j" "j < length path"
  shows "\<exists>path' imp'. two_opt_body points (length path) i j (path, imp) = Inr (path', imp')
           \<and> tour_improves points path path'"
proof -
  let ?n = "length path"
  have n0: "0 < ?n"
    using ij by (cases path) simp_all
  have pos: "i - 1 < ?n" "i < ?n" "j < ?n" "(j + 1) mod ?n < ?n"
    using ij mod_less_divisor [OF n0, of "j + 1"] by simp_all
  have val: "path ! (i - 1) < length points" "path ! i < length points"
    "path ! j < length points" "path ! ((j + 1) mod ?n) < length points"
    using v pos by (simp_all only: nth_mem)
  let ?d = "\<lambda>a b. euclid (points ! (path ! a)) (points ! (path ! b))"
  have e: "edge points (path ! (i - 1)) (path ! i) = Inr (?d (i - 1) i)"
    "edge points (path ! j) (path ! ((j + 1) mod ?n)) = Inr (?d j ((j + 1) mod ?n))"
    "edge points (path ! (i - 1)) (path ! j) = Inr (?d (i - 1) j)"
    "edge points (path ! i) (path ! ((j + 1) mod ?n)) = Inr (?d i ((j + 1) mod ?n))"
    using val by (simp_all only: edge_valid)
  show ?thesis
  proof (cases "?d (i - 1) j + ?d i ((j + 1) mod ?n) < ?d (i - 1) i + ?d j ((j + 1) mod ?n)")
    case True
    have "two_opt_body points ?n i j (path, imp) = Inr (reverse_segment path i j, True)"
      unfolding two_opt_body_def Let_def fst_conv snd_conv e sum.case
      using True by (simp only: if_True)
    then show ?thesis
      using reverse_segment_improves [OF v ij True] by blast
  next
    case False
    have "two_opt_body points ?n i j (path, imp) = Inr (path, imp)"
      unfolding two_opt_body_def Let_def fst_conv snd_conv e sum.case
      using False by (simp only: if_False)
    then show ?thesis
      using tour_improves_refl by blast
  qed
qed

lemma two_opt_inner_improves:
  assumes "\<forall>k\<in>set path. k < length points" "1 \<le> i" "\<forall>j\<in>set js. i < j \<and> j < length path"
  shows "\<exists>path' imp'. two_opt_inner points (length path) i js (path, imp) = Inr (path', imp')
           \<and> tour_improves points path path'"
  using assms
proof (induction js arbitrary: path imp)
  case Nil
  then show ?case
    using tour_improves_refl by simp
next
  case (Cons j js)
  obtain p1 b1 where b: "two_opt_body points (length path) i j (path, imp) = Inr (p1, b1)"
    "tour_improves points path p1"
    using two_opt_body_improves [OF Cons.prems(1,2), of j imp] Cons.prems(3) by auto
  have l: "length p1 = length path"
    using b(2) by (rule tour_improves_length)
  have v: "\<forall>k\<in>set p1. k < length points"
    using b(2) Cons.prems(1) by (rule tour_improves_valid)
  obtain p2 b2 where r: "two_opt_inner points (length p1) i js (p1, b1) = Inr (p2, b2)"
    "tour_improves points p1 p2"
    using Cons.IH [OF v Cons.prems(2), of b1] Cons.prems(3) l by auto
  show ?case
    using b r l tour_improves_trans by (intro exI [of _ p2] exI [of _ b2]) auto
qed

lemma two_opt_outer_improves:
  assumes "\<forall>k\<in>set path. k < length points" "\<forall>i\<in>set is. 1 \<le> i"
  shows "\<exists>path' imp'. two_opt_outer points (length path) is (path, imp) = Inr (path', imp')
           \<and> tour_improves points path path'"
  using assms
proof (induction "is" arbitrary: path imp)
  case Nil
  then show ?case
    using tour_improves_refl by simp
next
  case (Cons i "is")
  have i: "1 \<le> i" "\<forall>j\<in>set [i + 1..<length path]. i < j \<and> j < length path"
    using Cons.prems(2) by simp_all
  obtain p1 b1 where b: "two_opt_inner points (length path) i [i + 1..<length path] (path, imp) = Inr (p1, b1)"
    "tour_improves points path p1"
    using two_opt_inner_improves [OF Cons.prems(1) i, of imp] by auto
  have l: "length p1 = length path"
    using b(2) by (rule tour_improves_length)
  have v: "\<forall>k\<in>set p1. k < length points"
    using b(2) Cons.prems(1) by (rule tour_improves_valid)
  obtain p2 b2 where r: "two_opt_outer points (length p1) is (p1, b1) = Inr (p2, b2)"
    "tour_improves points p1 p2"
    using Cons.IH [OF v, of b1] Cons.prems(2) by auto
  show ?case
    using b r l tour_improves_trans by (intro exI [of _ p2] exI [of _ b2]) auto
qed

lemma two_opt_while_improves:
  assumes "\<forall>k\<in>set path. k < length points" "n = length path"
  shows "\<exists>path'. two_opt_while points n iterations path improved iter_count = Inr path'
           \<and> tour_improves points path path'"
  using assms
proof (induction points n iterations path improved iter_count rule: two_opt_while.induct)
  case (1 points n iterations path improved iter_count)
  show ?case
  proof (cases "improved \<and> iter_count < iterations")
    case False
    then show ?thesis
      using two_opt_while.simps [of points n iterations path improved iter_count]
        tour_improves_refl by auto
  next
    case True
    obtain p1 b1 where b: "two_opt_outer points n [1..<n - 1] (path, False) = Inr (p1, b1)"
      "tour_improves points path p1"
      using two_opt_outer_improves [OF "1.prems"(1), of "[1..<n - 1]" False] "1.prems"(2) by auto
    have l: "n = length p1"
      using tour_improves_length [OF b(2)] "1.prems"(2) by simp
    have v: "\<forall>k\<in>set p1. k < length points"
      using b(2) "1.prems"(1) by (rule tour_improves_valid)
    obtain p2 where r: "two_opt_while points n iterations p1 b1 (iter_count + 1) = Inr p2"
      "tour_improves points p1 p2"
      using "1.IH" [OF True b(1)] v l by auto
    have "two_opt_while points n iterations path improved iter_count = Inr p2"
      using two_opt_while.simps [of points n iterations path improved iter_count] True b(1) r(1)
      by simp
    then show ?thesis
      using b(2) r(2) tour_improves_trans by blast
  qed
qed

lemma two_opt_improves:
  assumes "\<forall>k\<in>set path. k < length points"
  shows "\<exists>path'. two_opt points path iterations = Inr path' \<and> tour_improves points path path'"
  using two_opt_while_improves [OF assms refl] by (simp add: two_opt_def)

lemma sqrt_squares: "sqrt 9 = 3" "sqrt 16 = 4" "sqrt 25 = 5" "sqrt 64 = 8"
  using real_sqrt_abs [of 3] real_sqrt_abs [of 4] real_sqrt_abs [of 5] real_sqrt_abs [of 8]
  by simp_all

lemma upt_4: "[1..<3] = [1, 2]" "[2..<4] = [2, 3]" "[3..<4] = [3]" "[0..<4] = [0, 1, 2, 3]"
  by code_simp+

lemma two_opt_example:
  "two_opt [(0, 0), (0, 4), (3, 4), (0, 8)] [0, 1, 2, 3] 100 = Inr [0, 1, 3, 2]"
  by (simp add: two_opt_def two_opt_while.simps two_opt_body_def edge_def point_at_def
      euclid_def reverse_segment_def Let_def upt_4 sqrt_squares)

lemma nn_example_4:
  "nearest_neighbor_tsp [(0, 0), (0, 4), (3, 4), (0, 8)] = Inr [0, 1, 2, 3]"
  by (simp add: nearest_neighbor_tsp_def nn_loop.simps argmin_def euclid_def Let_def upt_4
      sqrt_squares)


lemma permutation_valid:
  "mset path = mset [0..<length points] \<Longrightarrow> \<forall>k\<in>set path. k < length points"
  using mset_eq_setD [of path "[0..<length points]"] by simp

lemma mset_reverse_segment:
  assumes "i < j" "j < length path"
  shows "mset (reverse_segment path i j) = mset path"
  by (subst (2) segment_split [OF assms]) (simp add: reverse_segment_def)

lemma hd_reverse_segment: "1 \<le> i \<Longrightarrow> hd (reverse_segment path i j) = hd path"
  by (cases path) (simp_all add: reverse_segment_def take_Cons')

text \<open>
  Claim C7: for a tour that is a permutation of \<open>0, ..., N - 1\<close> and every budget, the 2-opt
  improver returns a permutation of \<open>0, ..., N - 1\<close>; the move it applies, the reversal of
  the positions \<open>i, ..., j\<close> (\<open>i < j < len(path)\<close>), keeps every entry exactly once.
\<close>

theorem two_opt_permutation:
  assumes "mset path = mset [0..<length points]"
  shows "(\<exists>path'. two_opt points path iterations = Inr path'
            \<and> mset path' = mset [0..<length points])
       \<and> (\<forall>i j. i < j \<and> j < length path \<longrightarrow> mset (reverse_segment path i j) = mset path)"
proof -
  obtain path' where "two_opt points path iterations = Inr path'" "tour_improves points path path'"
    using two_opt_improves [OF permutation_valid [OF assms]] by blast
  then show ?thesis
    using assms mset_reverse_segment by (auto simp: tour_improves_def)
qed

text \<open>
  The theorem on four points: the tour \<open>[0, 1, 2, 3]\<close> becomes \<open>[0, 1, 3, 2]\<close>, by the
  reversal of positions 2 to 3.
\<close>

theorem two_opt_permutation_witness:
  "two_opt [(0, 0), (0, 4), (3, 4), (0, 8)] [0, 1, 2, 3] 100 = Inr [0, 1, 3, 2]
   \<and> mset [0, 1, 3, 2] = mset [0..<4]
   \<and> reverse_segment [0, 1, 2, 3] 2 3 = [0, 1, 3, 2]"
proof -
  let ?pts = "[(0, 0), (0, 4), (3, 4), (0, 8)] :: point list"
  have len: "length ?pts = 4"
    by simp
  have h: "mset [0, 1, 2, 3] = mset [0..<length ?pts]"
    unfolding len upt_4 ..
  obtain path' where p: "two_opt ?pts [0, 1, 2, 3] 100 = Inr path'"
    "mset path' = mset [0..<4]"
    using two_opt_permutation [OF h, of 100] unfolding len by blast
  have "path' = [0, 1, 3, 2]"
    using p(1) two_opt_example by simp
  moreover have "reverse_segment [0, 1, 2, 3] 2 3 = [0, 1, 3, 2]"
    by (simp add: reverse_segment_def)
  ultimately show ?thesis
    using p by simp
qed

text \<open>
  Claim C10: for a point set of size \<open>N \<ge> 1\<close> and every budget, nearest-neighbour
  construction followed by 2-opt gives a tour whose first entry is index \<open>0\<close>; a reversal
  of positions \<open>i, ..., j\<close> with \<open>i \<ge> 1\<close> never moves the first entry.
\<close>

theorem solve_tsp_starts_at_zero:
  assumes "points \<noteq> []"
  shows "(\<exists>path. solve_tsp points ''2opt'' two_opt_iter = Inr path \<and> path \<noteq> [] \<and> hd path = 0)
       \<and> (\<forall>path i j. 1 \<le> i \<longrightarrow> hd (reverse_segment path i j) = hd path)"
proof -
  obtain p0 where p0: "nearest_neighbor_tsp points = Inr p0"
    "mset p0 = mset [0..<length points]" "hd p0 = 0"
    using nearest_neighbor_greedy [OF assms] by blast
  obtain p1 where p1: "two_opt points p0 two_opt_iter = Inr p1" "tour_improves points p0 p1"
    using two_opt_improves [OF permutation_valid [OF p0(2)]] by blast
  have "mset p1 = mset [0..<length points]"
    using p0(2) p1(2) by (simp add: tour_improves_def)
  then have "length p1 = length points"
    using mset_eq_length [of p1 "[0..<length points]"] by simp
  then have "p1 \<noteq> []"
    using assms by auto
  moreover have "hd p1 = 0"
    using p0(3) p1(2) by (simp add: tour_improves_def)
  moreover have "solve_tsp points ''2opt'' two_opt_iter = Inr p1"
    using p0(1) p1(1) by (simp add: solve_tsp_def)
  ultimately show ?thesis
    using hd_reverse_segment by blast
qed

text \<open>
  The theorem on the four points: the improved tour \<open>[0, 1, 3, 2]\<close> still starts at 0.
\<close>

theorem solve_tsp_starts_at_zero_witness:
  "solve_tsp [(0, 0), (0, 4), (3, 4), (0, 8)] ''2opt'' 100 = Inr [0, 1, 3, 2]
   \<and> hd [0, 1, 3, 2] = (0::nat)
   \<and> hd (reverse_segment [0, 1, 2, 3] 2 3) = hd [0, 1, 2, 3]"
proof -
  let ?pts = "[(0, 0), (0, 4), (3, 4), (0, 8)] :: point list"
  have ne: "?pts \<noteq> []"
    by simp
  note t = solve_tsp_starts_at_zero [OF ne, of 100]
  obtain path where p: "solve_tsp ?pts ''2opt'' 100 = Inr path" "hd path = 0"
    using t by blast
  have "solve_tsp ?pts ''2opt'' 100 = Inr [0, 1, 3, 2]"
    using nn_example_4 two_opt_example by (simp add: solve_tsp_def)
  moreover have "hd (reverse_segment [0, 1, 2, 3] 2 3) = hd [0, 1, 2, 3]"
    using t by simp
  ultimately show ?thesis
    using p by simp
qed




section \<open>The smoothed Julia field\<close>


lemma Complex_0_0: "Complex 0 0 = 0"
  by (simp add: Complex_eq_0)








section \<open>Colour values\<close>

text \<open>
  Claim C8 at a tour of two points whose iteration values are both \<open>0\<close>, coloured by
  iteration: the maximum is \<open>0\<close> and the one colour value is \<open>0/0\<close>, not a number in
  \<open>[0, 1]\<close>.
\<close>

theorem line_colors_zero_maximum:
  "line_colors [(0, 0), (1, 0)] [0, 1] [0, 0] ''iteration'' = Inr ([((0, 0), (1, 0))], [NaN])"
  by (simp add: line_colors_def take_indices_def Let_def)

lemma linspace_unit:
  assumes "linspace 0 1 n = Inr cs" "c \<in> set cs"
  shows "0 \<le> c \<and> c \<le> 1"
proof (cases "n = 1")
  case True
  then show ?thesis
    using assms by (auto simp: linspace_def)
next
  case False
  then obtain k where k: "k < nat n" "c = real k * (1 / real_of_int (n - 1))"
    using assms by (auto simp: linspace_def split: if_splits)
  then have "2 \<le> n"
    using False by linarith
  then have "real k \<le> real_of_int (n - 1)"
    using k(1) by (simp add: nat_less_iff)
  then show ?thesis
    using k \<open>2 \<le> n\<close> by (simp add: divide_le_eq_1)
qed

text \<open>
  Apart from that case the colour values are numbers in \<open>[0, 1]\<close>: by position always, and
  by iteration when the iteration values are non-negative and one of the tour points
  before the last has a positive one.
\<close>

theorem line_colors_unit_interval:
  assumes "line_colors points path iterations color_by = Inr (segments, colors)"
    and "color_by = ''iteration'' \<longrightarrow>
           (\<forall>v \<in> set iterations. 0 \<le> v)
           \<and> (\<exists>k \<in> set (butlast path). 0 < iterations ! k)"
  shows "\<forall>c \<in> set colors. \<exists>v. c = Fin v \<and> 0 \<le> v \<and> v \<le> 1"
proof -
  obtain op oi where o: "take_indices points path = Inr op" "take_indices iterations path = Inr oi"
    using assms(1) by (auto simp: line_colors_def split: sum.splits)
  have oi: "oi = map ((!) iterations) path" and v: "\<forall>k \<in> set path. k < length iterations"
    using o(2) by (auto simp: take_indices_def split: if_splits)
  consider (pos) "color_by = ''position''" | (it) "color_by = ''iteration''"
    using assms(1) o by (auto simp: line_colors_def Let_def split: if_splits)
  then show ?thesis
  proof cases
    case pos
    then obtain cs where cs: "linspace 0 1 (int (length (zip op (tl op)))) = Inr cs" "colors = map Fin cs"
      using assms(1) o by (auto simp: line_colors_def Let_def split: sum.splits)
    then show ?thesis
      using linspace_unit [OF cs(1)] by auto
  next
    case it
    let ?cs = "butlast oi"
    have ne: "?cs \<noteq> []" and c: "colors = map (\<lambda>c. fp_div (Fin c) (Fin (Max (set ?cs)))) ?cs"
      using assms(1) o it by (auto simp: line_colors_def Let_def split: if_splits)
    have b: "?cs = map ((!) iterations) (butlast path)"
      by (simp add: oi map_butlast)
    have nonneg: "\<forall>x \<in> set ?cs. 0 \<le> x"
      using assms(2) it v b by (auto dest: in_set_butlastD)
    obtain k where k: "k \<in> set (butlast path)" "0 < iterations ! k"
      using assms(2) it by blast
    then have "iterations ! k \<in> set ?cs"
      by (simp add: b)
    then have "iterations ! k \<le> Max (set ?cs)"
      by simp
    then have m: "0 < Max (set ?cs)"
      using k(2) by linarith
    have u: "\<exists>v. fp_div (Fin x) (Fin (Max (set ?cs))) = Fin v \<and> 0 \<le> v \<and> v \<le> 1"
      if "x \<in> set ?cs" for x
    proof -
      have "x \<le> Max (set ?cs)" "0 \<le> x"
        using that nonneg by simp_all
      then show ?thesis
        using m by (simp add: divide_le_eq_1)
    qed
    show ?thesis
      unfolding c using u by (auto simp del: fp_div.simps)
  qed
qed

text \<open>
  The theorem on three points with iteration values 1, 2, 4: the divisor is 2, the largest
  value among the tour points before the last.
\<close>

theorem line_colors_unit_interval_witness:
  "line_colors [(0, 0), (1, 0), (2, 0)] [0, 1, 2] [1, 2, 4] ''iteration''
     = Inr ([((0, 0), (1, 0)), ((1, 0), (2, 0))], [Fin (1 / 2), Fin 1])
   \<and> (\<exists>v. Fin (1 / 2) = Fin v \<and> 0 \<le> v \<and> v \<le> 1)"
proof -
  have e: "line_colors [(0, 0), (1, 0), (2, 0)] [0, 1, 2] [1, 2, 4] ''iteration''
      = Inr ([((0, 0), (1, 0)), ((1, 0), (2, 0))], [Fin (1 / 2), Fin 1])"
    by (simp add: line_colors_def take_indices_def Let_def)
  have h: "''iteration'' = ''iteration'' \<longrightarrow>
      (\<forall>v \<in> set [1, 2, 4 :: real]. 0 \<le> v) \<and> (\<exists>k \<in> set (butlast [0, 1, 2 :: nat]). 0 < [1, 2, 4 :: real] ! k)"
    by simp
  have "\<forall>c \<in> set [Fin (1 / 2), Fin 1]. \<exists>v. c = Fin v \<and> 0 \<le> v \<and> v \<le> 1"
    using e h by (rule line_colors_unit_interval)
  then show ?thesis
    using e by simp
qed

section \<open>The pipeline accepts every configuration\<close>

lemma upt_2: "[0..<2] = [0, 1]" "[1..<2] = [1]" "[1..<1] = []"
  by code_simp+

lemma mandelbrot_shapes:
  assumes "0 \<le> width" "0 \<le> height"
  shows "\<exists>M X Y. calculate_mandelbrot width height x_min x_max y_min y_max max_iter = Inr (M, X, Y)
           \<and> shaped (nat height) (nat width) M \<and> shaped (nat height) (nat width) X
           \<and> shaped (nat height) (nat width) Y"
proof -
  obtain x where x: "linspace x_min x_max width = Inr x" "length x = nat width"
    using linspace_Inr [of width x_min x_max] assms by auto
  obtain y where y: "linspace y_min y_max height = Inr y" "length y = nat height"
    using linspace_Inr [of height y_min y_max] assms by auto
  let ?X = "fst (meshgrid x y)" and ?Y = "snd (meshgrid x y)"
  let ?P = "complex_plane ?X ?Y"
  let ?Z0 = "map (map (\<lambda>_. 0::complex)) ?P"
  let ?M = "snd (foldl (escape_step ?P) (?Z0, map (map (\<lambda>_. 0)) ?P) [0..<nat max_iter])"
  have sX: "shaped (nat height) (nat width) ?X" and sY: "shaped (nat height) (nat width) ?Y"
    using shaped_meshgrid [of y x] x y by simp_all
  have sP: "shaped (nat height) (nat width) ?P"
    using sX sY by (rule shaped_complex_plane)
  have sZ: "shaped (nat height) (nat width) ?Z0"
    using sP by (rule shaped_map_map)
  have "calculate_mandelbrot width height x_min x_max y_min y_max max_iter = Inr (?M, ?X, ?Y)"
    by (simp add: calculate_mandelbrot_def x y Let_def)
  then show ?thesis
    using escape_loop_cells(2) [OF sP sZ sP] sX sY by blast
qed

text \<open>
  Claim C9, as the code has it: \<open>main\<close> validates nothing. For every configuration with
  non-negative grid dimensions, whatever its region bounds, \<open>max_iter\<close>, point count and
  other fields, the field evaluation returns a full grid and \<open>main\<close> goes on with the
  extraction, the tour and the colours computed from it; an exception, if any, is the one
  of the stage that raises it.
\<close>

theorem main_runs_every_configuration:
  assumes "0 \<le> MANDELBROT_WIDTH cfg" "0 \<le> MANDELBROT_HEIGHT cfg"
  shows "\<exists>M X Y. calculate_mandelbrot (MANDELBROT_WIDTH cfg) (MANDELBROT_HEIGHT cfg)
                    (X_MIN cfg) (X_MAX cfg) (Y_MIN cfg) (Y_MAX cfg) (MAX_ITER cfg) = Inr (M, X, Y)
           \<and> shaped (nat (MANDELBROT_HEIGHT cfg)) (nat (MANDELBROT_WIDTH cfg)) M
           \<and> main rng g cfg =
               (case extract_points rng g M X Y (NUM_POINTS cfg) (SAMPLE_METHOD cfg)
                       (BOUNDARY_THRESHOLD cfg) of
                  Inl e \<Rightarrow> Inl e
                | Inr extracted \<Rightarrow>
                    (case solve_tsp (fst extracted) (TSP_METHOD cfg) (TWO_OPT_ITERATIONS cfg) of
                       Inl e \<Rightarrow> Inl e
                     | Inr path \<Rightarrow>
                         line_colors (fst extracted) path (snd extracted) (COLOR_BY cfg)))"
proof -
  obtain M X Y where m: "calculate_mandelbrot (MANDELBROT_WIDTH cfg) (MANDELBROT_HEIGHT cfg)
        (X_MIN cfg) (X_MAX cfg) (Y_MIN cfg) (Y_MAX cfg) (MAX_ITER cfg) = Inr (M, X, Y)"
      "shaped (nat (MANDELBROT_HEIGHT cfg)) (nat (MANDELBROT_WIDTH cfg)) M"
    using mandelbrot_shapes [OF assms] by blast
  then show ?thesis
    by (simp add: main_def)
qed

lemma mandelbrot_bad_bounds:
  "calculate_mandelbrot 2 2 1 0 0 0 2 = Inr ([[1, 1], [1, 1]], [[1, 0], [1, 0]], [[0, 0], [0, 0]])"
  by (simp add: calculate_mandelbrot_def linspace_def meshgrid_def complex_plane_def zip2d_def
      escape_step_def assign_where_def Let_def upt_2 Complex_0_0 cmod_def)

lemma extract_bad_bounds:
  "extract_points lowest_rng 0 [[1, 1], [1, 1]] [[1, 0], [1, 0]] [[0, 0], [0, 0]] 2 ''random'' 5
     = Inr ([(1, 0), (0, 0)], [1, 1])"
  by (simp add: extract_points_def select_cells_def select_random_def lowest_rng_def
      counting_randint_def array_shape_def take_cells_def Let_def upt_2)

lemma extract_no_points:
  "extract_points lowest_rng 0 [[1, 1], [1, 1]] [[1, 0], [1, 0]] [[0, 0], [0, 0]] 0 ''random'' 5
     = Inr ([], [])"
  by (simp add: extract_points_def select_cells_def select_random_def lowest_rng_def
      counting_randint_def array_shape_def take_cells_def Let_def upt_2)

lemma solve_bad_bounds: "solve_tsp [(1, 0), (0, 0)] ''2opt'' 5 = Inr [0, 1]"
  by (simp add: solve_tsp_def nearest_neighbor_tsp_def nn_loop.simps argmin_def euclid_def Let_def
      upt_2 two_opt_def two_opt_while.simps)

text \<open>
  Claim C9 as stated fails: the configuration \<open>bad_bounds\<close>, whose region has
  \<open>x_min > x_max\<close>, is not rejected but runs to the end; with a point count of \<open>0\<close> the field
  is evaluated and sampled, and the run ends in the tour constructor with the \<open>KeyError\<close>
  of \<open>unvisited.remove(0)\<close>.
\<close>

theorem main_accepts_invalid_configuration:
  "main lowest_rng 0 bad_bounds = Inr ([((1, 0), (0, 0))], [Fin 0])
   \<and> \<not> X_MIN bad_bounds < X_MAX bad_bounds
   \<and> main lowest_rng 0 (bad_bounds\<lparr>NUM_POINTS := 0\<rparr>) = Inl KeyError"
proof -
  have 1: "main lowest_rng 0 bad_bounds = Inr ([((1, 0), (0, 0))], [Fin 0])"
    by (simp add: main_def bad_bounds_def mandelbrot_bad_bounds extract_bad_bounds
        solve_bad_bounds line_colors_def take_indices_def linspace_def Let_def)
  have 2: "main lowest_rng 0 (bad_bounds\<lparr>NUM_POINTS := 0\<rparr>) = Inl KeyError"
    by (simp add: main_def bad_bounds_def mandelbrot_bad_bounds extract_no_points
        solve_tsp_def nearest_neighbor_tsp_def)
  show ?thesis
    using 1 2 by (simp add: bad_bounds_def)
qed

text \<open>
  The theorem on the configuration \<open>bad_bounds\<close>: the field is evaluated on the reversed
  region and the run ends with one segment and its colour.
\<close>

theorem main_runs_every_configuration_witness:
  "calculate_mandelbrot 2 2 1 0 0 0 2 = Inr ([[1, 1], [1, 1]], [[1, 0], [1, 0]], [[0, 0], [0, 0]])
   \<and> shaped 2 2 [[1, 1], [1, 1 :: real]]
   \<and> main lowest_rng 0 bad_bounds = Inr ([((1, 0), (0, 0))], [Fin 0])"
proof -
  have h: "0 \<le> MANDELBROT_WIDTH bad_bounds" "0 \<le> MANDELBROT_HEIGHT bad_bounds"
    by (simp_all add: bad_bounds_def)
  obtain M X Y where m: "calculate_mandelbrot (MANDELBROT_WIDTH bad_bounds)
        (MANDELBROT_HEIGHT bad_bounds) (X_MIN bad_bounds) (X_MAX bad_bounds) (Y_MIN bad_bounds)
        (Y_MAX bad_bounds) (MAX_ITER bad_bounds) = Inr (M, X, Y)"
      "shaped (nat (MANDELBROT_HEIGHT bad_bounds)) (nat (MANDELBROT_WIDTH bad_bounds)) M"
      "main lowest_rng 0 bad_bounds =
         (case extract_points lowest_rng 0 M X Y (NUM_POINTS bad_bounds) (SAMPLE_METHOD bad_bounds)
                 (BOUNDARY_THRESHOLD bad_bounds) of
            Inl e \<Rightarrow> Inl e
          | Inr extracted \<Rightarrow>
              (case solve_tsp (fst extracted) (TSP_METHOD bad_bounds) (TWO_OPT_ITERATIONS bad_bounds) of
                 Inl e \<Rightarrow> Inl e
               | Inr path \<Rightarrow>
                   line_colors (fst extracted) path (snd extracted) (COLOR_BY bad_bounds)))"
    using main_runs_every_configuration [OF h, of lowest_rng 0] by blast
  have e: "M = [[1, 1], [1, 1]]" "X = [[1, 0], [1, 0]]" "Y = [[0, 0], [0, 0]]"
    using m(1) by (simp_all add: bad_bounds_def mandelbrot_bad_bounds)
  have "main lowest_rng 0 bad_bounds = Inr ([((1, 0), (0, 0))], [Fin 0])"
    unfolding m(3) e
    by (simp add: bad_bounds_def extract_bad_bounds solve_bad_bounds line_colors_def
        take_indices_def linspace_def Let_def)
  then show ?thesis
    using m(2) by (simp add: e bad_bounds_def mandelbrot_bad_bounds)
qed

section \<open>Point extraction under the generator's documented behaviour\<close>









































section \<open>Edge cases of the tour solver\<close>

text \<open>
  With no point at all the tour constructor raises \<open>KeyError\<close>, and so does \<open>solve_tsp\<close>.
\<close>

theorem no_points_key_error:
  "nearest_neighbor_tsp [] = Inl KeyError \<and> solve_tsp [] method two_opt_iter = Inl KeyError"
  by (simp add: nearest_neighbor_tsp_def solve_tsp_def)

text \<open>
  A budget of zero (or less) disables the improver: the loop body never runs and the tour
  comes back unchanged, whatever its entries.
\<close>

theorem two_opt_zero_budget:
  "iterations \<le> 0 \<Longrightarrow> two_opt points path iterations = Inr path"
  by (simp add: two_opt_def two_opt_while.simps)

theorem two_opt_zero_budget_witness:
  "two_opt [(0, 0), (0, 4), (3, 4), (0, 8)] [0, 1, 2, 3] 0 = Inr [0, 1, 2, 3]"
proof -
  have "(0::int) \<le> 0"
    by simp
  then show ?thesis
    by (rule two_opt_zero_budget)
qed

end
